theory Spec2Isabelle
  imports Main
begin

section \<open>The inspector's request orchestration (App.tsx)\<close>

text \<open>
  The component \<^verbatim>\<open>App\<close> of \<^verbatim>\<open>src/client/src/components/App.tsx\<close> keeps its state
  in React hooks (\<^verbatim>\<open>useState\<close>, \<^verbatim>\<open>useRef\<close>). The model collects the hooks a
  group of handlers reads or writes in a record, and every handler is a function from
  the state before to the state after. Handlers are run one after the other, each on
  the state the previous one left (the component re-renders between two user actions).
  Where an updater function passed to a setter does more than compute the next state,
  the model also says how often React runs it (see the sampling queue below); the
  other updaters only compute the next state, so that running one twice on the same
  previous state gives the state of one run.

  Values the code only passes on (resources, tools, prompts, sampling payloads and
  results) are opaque to it; the model writes each as its JSON text.

  The two counters \<^verbatim>\<open>nextRequestId\<close> and \<^verbatim>\<open>progressTokenRef\<close> start at 0 and are only
  ever changed by \<^verbatim>\<open>++\<close>; the model writes them as natural numbers. A JavaScript
  number counts exactly up to \<open>2^53\<close>, and the model is of the counters below that
  bound.
\<close>

type_synonym json = string

subsection \<open>Sampling requests awaiting a decision\<close>

text \<open>
  An entry of \<^verbatim>\<open>pendingSampleRequests\<close>: \<^verbatim>\<open>{ id, request, resolve, reject }\<close>. The two
  closures belong to the entry; calling one of them is an effect, which the model
  records in the trace \<open>invocations\<close> together with the entry it was called on.
\<close>

record PendingRequest =
  id' :: nat
  request :: json

datatype js_error = Error string

datatype invocation =
    Resolve_called PendingRequest json
  | Reject_called PendingRequest js_error

fun target :: "invocation \<Rightarrow> PendingRequest" where
  "target (Resolve_called r res) = r"
| "target (Reject_called r e) = r"

record Sampling =
  pendingSampleRequests :: "PendingRequest list"
  nextRequestId :: nat
  invocations :: "invocation list"

definition Sampling_init :: Sampling where
  "Sampling_init = \<lparr>pendingSampleRequests = [], nextRequestId = 0, invocations = []\<rparr>"

text \<open>
  The three handlers of the queue pass an updater function to
  \<^verbatim>\<open>setPendingSampleRequests\<close>, and each updater does more than compute the next list:
  it increments \<^verbatim>\<open>nextRequestId.current\<close> or calls a closure of an entry. How often
  React runs an updater therefore matters. The repository's Next.js configuration sets
  \<^verbatim>\<open>reactStrictMode: true\<close>: in a development build React runs every updater twice
  on the same previous state and keeps the state the second run returns, while what
  the two runs did outside the state stays done; in a production build it runs the
  updater once.
\<close>

datatype render_mode = Production | StrictDev

fun updater_runs :: "render_mode \<Rightarrow> nat" where
  "updater_runs Production = 1"
| "updater_runs StrictDev = 2"

text \<open>
  \<^verbatim>\<open>setPendingSampleRequests((prev) => ...)\<close>. An updater is a function on the whole
  record: it reads \<^verbatim>\<open>prev\<close> in \<open>pendingSampleRequests\<close>, writes the list it returns
  there, and changes the counter and the trace as it goes. The first of two runs has
  its list discarded: the second starts from the same \<^verbatim>\<open>prev\<close>.
\<close>

definition setPendingSampleRequests ::
  "render_mode \<Rightarrow> (Sampling \<Rightarrow> Sampling) \<Rightarrow> Sampling \<Rightarrow> Sampling" where
  "setPendingSampleRequests mode updater s =
     (case mode of
        Production \<Rightarrow> updater s
      | StrictDev \<Rightarrow> updater ((updater s)\<lparr>pendingSampleRequests := pendingSampleRequests s\<rparr>))"

text \<open>
  \<^verbatim>\<open>(prev) => [...prev, { id: nextRequestId.current++, request, resolve, reject }]\<close>
\<close>

definition onPendingRequest_updater :: "json \<Rightarrow> Sampling \<Rightarrow> Sampling" where
  "onPendingRequest_updater req s =
     s\<lparr>pendingSampleRequests :=
         pendingSampleRequests s @ [\<lparr>id' = nextRequestId s, request = req\<rparr>],
       nextRequestId := nextRequestId s + 1\<rparr>"

text \<open>
  \<^verbatim>\<open>onPendingRequest: (request, resolve, reject) => {
     setPendingSampleRequests((prev) => [...prev, { id: nextRequestId.current++, ... }])
  }\<close>
\<close>

definition onPendingRequest :: "render_mode \<Rightarrow> json \<Rightarrow> Sampling \<Rightarrow> Sampling" where
  "onPendingRequest mode req s =
     setPendingSampleRequests mode (onPendingRequest_updater req) s"

text \<open>
  \<^verbatim>\<open>(prev) => {
    const request = prev.find((r) => r.id === id)
    request?.resolve(result)
    return prev.filter((r) => r.id !== id)
  }\<close>
\<close>

definition handleApproveSampling_updater :: "nat \<Rightarrow> json \<Rightarrow> Sampling \<Rightarrow> Sampling" where
  "handleApproveSampling_updater i result s =
     (let prev = pendingSampleRequests s in
      s\<lparr>invocations :=
          (case find (\<lambda>r. id' r = i) prev of
             None \<Rightarrow> invocations s
           | Some r \<Rightarrow> invocations s @ [Resolve_called r result]),
        pendingSampleRequests := filter (\<lambda>r. id' r \<noteq> i) prev\<rparr>)"

text \<open>
  \<^verbatim>\<open>const handleApproveSampling = (id: number, result: CreateMessageResult) => {
    setPendingSampleRequests((prev) => { ... })
  }\<close>
\<close>

definition handleApproveSampling ::
  "render_mode \<Rightarrow> nat \<Rightarrow> json \<Rightarrow> Sampling \<Rightarrow> Sampling" where
  "handleApproveSampling mode i result s =
     setPendingSampleRequests mode (handleApproveSampling_updater i result) s"

text \<open>
  \<^verbatim>\<open>(prev) => {
    const request = prev.find((r) => r.id === id)
    request?.reject(new Error("Sampling request rejected"))
    return prev.filter((r) => r.id !== id)
  }\<close>
\<close>

definition handleRejectSampling_updater :: "nat \<Rightarrow> Sampling \<Rightarrow> Sampling" where
  "handleRejectSampling_updater i s =
     (let prev = pendingSampleRequests s in
      s\<lparr>invocations :=
          (case find (\<lambda>r. id' r = i) prev of
             None \<Rightarrow> invocations s
           | Some r \<Rightarrow> invocations s @ [Reject_called r (Error ''Sampling request rejected'')]),
        pendingSampleRequests := filter (\<lambda>r. id' r \<noteq> i) prev\<rparr>)"

text \<open>
  \<^verbatim>\<open>const handleRejectSampling = (id: number) => {
    setPendingSampleRequests((prev) => { ... })
  }\<close>
\<close>

definition handleRejectSampling :: "render_mode \<Rightarrow> nat \<Rightarrow> Sampling \<Rightarrow> Sampling" where
  "handleRejectSampling mode i s =
     setPendingSampleRequests mode (handleRejectSampling_updater i) s"

text \<open>What can happen to the queue: a server asks, the operator approves or rejects.\<close>

datatype sampling_event =
    Enqueue json
  | Approve nat json
  | Reject nat

fun sampling_step :: "render_mode \<Rightarrow> sampling_event \<Rightarrow> Sampling \<Rightarrow> Sampling" where
  "sampling_step mode (Enqueue req) s = onPendingRequest mode req s"
| "sampling_step mode (Approve i result) s = handleApproveSampling mode i result s"
| "sampling_step mode (Reject i) s = handleRejectSampling mode i s"

fun sampling_run :: "render_mode \<Rightarrow> sampling_event list \<Rightarrow> Sampling \<Rightarrow> Sampling" where
  "sampling_run mode [] s = s"
| "sampling_run mode (e # es) s = sampling_run mode es (sampling_step mode e s)"

text \<open>The id a decision names; an enqueue names none.\<close>

fun decided_id :: "sampling_event \<Rightarrow> nat option" where
  "decided_id (Enqueue req) = None"
| "decided_id (Approve i result) = Some i"
| "decided_id (Reject i) = Some i"

text \<open>
  The call one run of a decision's updater makes on the entry it matches, and the
  calls the decision makes in all.
\<close>

fun call_of :: "sampling_event \<Rightarrow> PendingRequest \<Rightarrow> invocation list" where
  "call_of (Enqueue req) r = []"
| "call_of (Approve i result) r = [Resolve_called r result]"
| "call_of (Reject i) r = [Reject_called r (Error ''Sampling request rejected'')]"

definition calls_of :: "render_mode \<Rightarrow> sampling_event \<Rightarrow> PendingRequest \<Rightarrow> invocation list"
  where
  "calls_of mode d r = concat (replicate (updater_runs mode) (call_of d r))"

text \<open>The ids handed out while a sequence of events runs, in order.\<close>

fun assigned_ids :: "render_mode \<Rightarrow> sampling_event list \<Rightarrow> Sampling \<Rightarrow> nat list" where
  "assigned_ids mode [] s = []"
| "assigned_ids mode (Enqueue req # es) s =
     id' (last (pendingSampleRequests (onPendingRequest mode req s)))
       # assigned_ids mode es (onPendingRequest mode req s)"
| "assigned_ids mode (e # es) s = assigned_ids mode es (sampling_step mode e s)"

text \<open>
  What every reachable state satisfies: queued ids are pairwise different and below the
  counter, and no entry a closure was called on is still queued.
\<close>

definition sampling_inv :: "Sampling \<Rightarrow> bool" where
  "sampling_inv s \<longleftrightarrow>
     distinct (map id' (pendingSampleRequests s)) \<and>
     list_all (\<lambda>r. id' r < nextRequestId s) (pendingSampleRequests s) \<and>
     list_all (\<lambda>c. id' (target c) < nextRequestId s \<and>
                    id' (target c) \<notin> set (map id' (pendingSampleRequests s)))
              (invocations s)"

fun is_enqueue :: "sampling_event \<Rightarrow> bool" where
  "is_enqueue (Enqueue req) = True"
| "is_enqueue e = False"

subsection \<open>Requests, responses and failures\<close>

text \<open>
  A request object \<^verbatim>\<open>{ method, params }\<close>. Two shapes of \<^verbatim>\<open>params\<close> occur below:
  \<^verbatim>\<open>cursor ? { cursor } : {}\<close> of the list requests (\<open>None\<close> is \<^verbatim>\<open>{}\<close>) and
  \<^verbatim>\<open>{ name, arguments, _meta: { progressToken } }\<close> of \<^verbatim>\<open>tools/call\<close>.
\<close>

datatype params =
    List_params "string option"
  | Call_params string json nat

record ClientRequest =
  method' :: string
  params :: params

text \<open>
  What a \<^verbatim>\<open>catch (e)\<close> receives: the value of \<^verbatim>\<open>e.message\<close> when it is neither
  \<^verbatim>\<open>null\<close> nor \<^verbatim>\<open>undefined\<close>, and the text \<^verbatim>\<open>String(e)\<close>.
\<close>

datatype thrown = Thrown (message: "string option") (String: string)

text \<open>\<^verbatim>\<open>(e as Error).message ?? String(e)\<close>\<close>

definition errorString :: "thrown \<Rightarrow> string" where
  "errorString e = (case message e of Some m \<Rightarrow> m | None \<Rightarrow> String e)"

text \<open>
  \<^verbatim>\<open>makeRequest(request, schema)\<close> comes from the hook \<^verbatim>\<open>useConnection\<close>: it sends the
  request and either returns a response of the schema's type or throws. It is a
  parameter of the model; the schema is the type \<open>'r\<close> of the response.
\<close>

type_synonym 'r makeRequest = "ClientRequest \<Rightarrow> thrown + 'r"

text \<open>
  A list response: \<open>items\<close> is \<^verbatim>\<open>response.resources\<close>, \<^verbatim>\<open>response.resourceTemplates\<close>,
  \<^verbatim>\<open>response.prompts\<close> or \<^verbatim>\<open>response.tools\<close>. The first two are read through
  \<^verbatim>\<open>?? []\<close> in the code and so may be absent.
\<close>

record 'p ListResult =
  items :: 'p
  nextCursor :: "string option"

datatype content_item = TextContent string | OtherContent json

datatype CompatibilityCallToolResult =
    CallToolResult (content: "content_item list") (isError: "bool option")
  | LegacyToolResult json

text \<open>
  The hooks of \<^verbatim>\<open>App\<close> the request handlers use. \<open>errors\<close> is the
  \<^verbatim>\<open>Record<string, string | null>\<close>, with \<open>None\<close> for \<^verbatim>\<open>null\<close>. \<open>dispatched\<close> is
  not a hook: it records, in order, the requests handed to \<^verbatim>\<open>makeRequest\<close>.
\<close>

record App =
  resources :: "json list"
  resourceTemplates :: "json list"
  prompts :: "json list"
  tools :: "json list"
  toolResult :: "CompatibilityCallToolResult option"
  errors :: "string \<Rightarrow> string option"
  nextResourceCursor :: "string option"
  nextResourceTemplateCursor :: "string option"
  nextPromptCursor :: "string option"
  nextToolCursor :: "string option"
  progressTokenRef :: nat
  dispatched :: "ClientRequest list"

definition App_init :: App where
  "App_init =
     \<lparr>resources = [], resourceTemplates = [], prompts = [], tools = [], toolResult = None,
      errors = (\<lambda>k. None),
      nextResourceCursor = None, nextResourceTemplateCursor = None,
      nextPromptCursor = None, nextToolCursor = None,
      progressTokenRef = 0, dispatched = []\<rparr>"

subsection \<open>The dispatcher\<close>

text \<open>\<^verbatim>\<open>setErrors((prev) => ({ ...prev, [tabKey]: null }))\<close>\<close>

definition clearError :: "string \<Rightarrow> App \<Rightarrow> App" where
  "clearError tabKey s = s\<lparr>errors := (errors s)(tabKey := None)\<rparr>"

text \<open>
  \<^verbatim>\<open>try {
    const response = await makeRequest(request, schema)
    if (tabKey !== undefined) { clearError(tabKey) }
    return response
  } catch (e) {
    const errorString = (e as Error).message ?? String(e)
    if (tabKey !== undefined) {
      setErrors((prev) => ({ ...prev, [tabKey]: errorString }))
    }
    throw e
  }\<close>
  The result is \<open>Inr response\<close> for \<^verbatim>\<open>return response\<close> and \<open>Inl e\<close> for \<^verbatim>\<open>throw e\<close>.
\<close>

definition sendMCPRequest ::
  "'r makeRequest \<Rightarrow> ClientRequest \<Rightarrow> string option \<Rightarrow> App \<Rightarrow> (thrown + 'r) \<times> App" where
  "sendMCPRequest makeRequest req tabKey s =
     (let s1 = s\<lparr>dispatched := dispatched s @ [req]\<rparr> in
      case makeRequest req of
        Inr response \<Rightarrow>
          (Inr response, (case tabKey of None \<Rightarrow> s1 | Some k \<Rightarrow> clearError k s1))
      | Inl e \<Rightarrow>
          (Inl e, (case tabKey of
                     None \<Rightarrow> s1
                   | Some k \<Rightarrow> s1\<lparr>errors := (errors s1)(k := Some (errorString e))\<rparr>)))"

subsection \<open>Listing, page by page\<close>

text \<open>The test \<^verbatim>\<open>nextResourceCursor ? ... : ...\<close>: \<^verbatim>\<open>undefined\<close> and \<^verbatim>\<open>""\<close> are falsy.\<close>

fun truthy :: "string option \<Rightarrow> bool" where
  "truthy None = False"
| "truthy (Some c) = (c \<noteq> [])"

text \<open>\<^verbatim>\<open>params: cursor ? { cursor: cursor } : {}\<close>\<close>

definition cursor_params :: "string option \<Rightarrow> params" where
  "cursor_params c = (if truthy c then List_params c else List_params None)"

text \<open>\<^verbatim>\<open>x ?? []\<close>\<close>

fun or_empty :: "'a list option \<Rightarrow> 'a list" where
  "or_empty None = []"
| "or_empty (Some xs) = xs"

text \<open>
  \<^verbatim>\<open>const response = await sendMCPRequest(
    { method: "resources/list", params: nextResourceCursor ? { cursor: nextResourceCursor } : {} },
    ListResourcesResultSchema, "resources")
  setResources(resources.concat(response.resources ?? []))
  setNextResourceCursor(response.nextCursor)\<close>
  A failure of the awaited call leaves \<^verbatim>\<open>listResources\<close> at once, as \<open>Inl e\<close>.
\<close>

definition listResources ::
  "json list option ListResult makeRequest \<Rightarrow> App \<Rightarrow> (thrown + unit) \<times> App" where
  "listResources makeRequest s =
     (case sendMCPRequest makeRequest
             \<lparr>method' = ''resources/list'', params = cursor_params (nextResourceCursor s)\<rparr>
             (Some ''resources'') s of
        (Inl e, s') \<Rightarrow> (Inl e, s')
      | (Inr response, s') \<Rightarrow>
          (Inr (), s'\<lparr>resources := resources s @ or_empty (items response),
                      nextResourceCursor := nextCursor response\<rparr>))"

text \<open>
  \<^verbatim>\<open>const response = await sendMCPRequest(
    { method: "resources/templates/list",
      params: nextResourceTemplateCursor ? { cursor: nextResourceTemplateCursor } : {} },
    ListResourceTemplatesResultSchema, "resources")
  setResourceTemplates(resourceTemplates.concat(response.resourceTemplates ?? []))
  setNextResourceTemplateCursor(response.nextCursor)\<close>
\<close>

definition listResourceTemplates ::
  "json list option ListResult makeRequest \<Rightarrow> App \<Rightarrow> (thrown + unit) \<times> App" where
  "listResourceTemplates makeRequest s =
     (case sendMCPRequest makeRequest
             \<lparr>method' = ''resources/templates/list'',
              params = cursor_params (nextResourceTemplateCursor s)\<rparr>
             (Some ''resources'') s of
        (Inl e, s') \<Rightarrow> (Inl e, s')
      | (Inr response, s') \<Rightarrow>
          (Inr (), s'\<lparr>resourceTemplates := resourceTemplates s @ or_empty (items response),
                      nextResourceTemplateCursor := nextCursor response\<rparr>))"

text \<open>
  \<^verbatim>\<open>const response = await sendMCPRequest(
    { method: "prompts/list", params: nextPromptCursor ? { cursor: nextPromptCursor } : {} },
    ListPromptsResultSchema, "prompts")
  setPrompts(response.prompts)
  setNextPromptCursor(response.nextCursor)\<close>
\<close>

definition listPrompts ::
  "json list ListResult makeRequest \<Rightarrow> App \<Rightarrow> (thrown + unit) \<times> App" where
  "listPrompts makeRequest s =
     (case sendMCPRequest makeRequest
             \<lparr>method' = ''prompts/list'', params = cursor_params (nextPromptCursor s)\<rparr>
             (Some ''prompts'') s of
        (Inl e, s') \<Rightarrow> (Inl e, s')
      | (Inr response, s') \<Rightarrow>
          (Inr (), s'\<lparr>prompts := items response, nextPromptCursor := nextCursor response\<rparr>))"

text \<open>
  \<^verbatim>\<open>const response = await sendMCPRequest(
    { method: "tools/list", params: nextToolCursor ? { cursor: nextToolCursor } : {} },
    ListToolsResultSchema, "tools")
  setTools(response.tools)
  setNextToolCursor(response.nextCursor)\<close>
\<close>

definition listTools ::
  "json list ListResult makeRequest \<Rightarrow> App \<Rightarrow> (thrown + unit) \<times> App" where
  "listTools makeRequest s =
     (case sendMCPRequest makeRequest
             \<lparr>method' = ''tools/list'', params = cursor_params (nextToolCursor s)\<rparr>
             (Some ''tools'') s of
        (Inl e, s') \<Rightarrow> (Inl e, s')
      | (Inr response, s') \<Rightarrow>
          (Inr (), s'\<lparr>tools := items response, nextToolCursor := nextCursor response\<rparr>))"

text \<open>
  The four clear handlers given to the tabs, for instance
  \<^verbatim>\<open>clearResources={() => { setResources([]); setNextResourceCursor(undefined) }}\<close>.
\<close>

definition clearResources :: "App \<Rightarrow> App" where
  "clearResources s = s\<lparr>resources := [], nextResourceCursor := None\<rparr>"

definition clearResourceTemplates :: "App \<Rightarrow> App" where
  "clearResourceTemplates s = s\<lparr>resourceTemplates := [], nextResourceTemplateCursor := None\<rparr>"

definition clearPrompts :: "App \<Rightarrow> App" where
  "clearPrompts s = s\<lparr>prompts := [], nextPromptCursor := None\<rparr>"

definition clearTools :: "App \<Rightarrow> App" where
  "clearTools s = s\<lparr>tools := [], nextToolCursor := None\<rparr>"

text \<open>
  Calling \<^verbatim>\<open>listResources\<close> once per element of a list of server behaviours, and the
  pages those calls return (a failed call returns none).
\<close>

fun listResources_run ::
  "json list option ListResult makeRequest list \<Rightarrow> App \<Rightarrow> App" where
  "listResources_run [] s = s"
| "listResources_run (mk # mks) s = listResources_run mks (snd (listResources mk s))"

fun listResources_pages ::
  "json list option ListResult makeRequest list \<Rightarrow> App \<Rightarrow> json list list" where
  "listResources_pages [] s = []"
| "listResources_pages (mk # mks) s =
     (case mk \<lparr>method' = ''resources/list'', params = cursor_params (nextResourceCursor s)\<rparr> of
        Inl e \<Rightarrow> []
      | Inr response \<Rightarrow> [or_empty (items response)])
     @ listResources_pages mks (snd (listResources mk s))"

fun listResourceTemplates_run ::
  "json list option ListResult makeRequest list \<Rightarrow> App \<Rightarrow> App" where
  "listResourceTemplates_run [] s = s"
| "listResourceTemplates_run (mk # mks) s =
     listResourceTemplates_run mks (snd (listResourceTemplates mk s))"

fun listResourceTemplates_pages ::
  "json list option ListResult makeRequest list \<Rightarrow> App \<Rightarrow> json list list" where
  "listResourceTemplates_pages [] s = []"
| "listResourceTemplates_pages (mk # mks) s =
     (case mk \<lparr>method' = ''resources/templates/list'',
               params = cursor_params (nextResourceTemplateCursor s)\<rparr> of
        Inl e \<Rightarrow> []
      | Inr response \<Rightarrow> [or_empty (items response)])
     @ listResourceTemplates_pages mks (snd (listResourceTemplates mk s))"

text \<open>
  A server with two pages of tools, as in the scenario of the specification: the first
  page \<^verbatim>\<open>{tools: [t1, t2], nextCursor: "c1"}\<close>, and at cursor \<^verbatim>\<open>c1\<close> the last page
  \<^verbatim>\<open>{tools: [t3]}\<close>. The same server is used for prompts.
\<close>

definition two_pages :: "json list ListResult makeRequest" where
  "two_pages req =
     (if params req = List_params (Some ''c1'')
      then Inr \<lparr>items = [''t3''], nextCursor = None\<rparr>
      else Inr \<lparr>items = [''t1'', ''t2''], nextCursor = Some ''c1''\<rparr>)"

subsection \<open>Calling a tool\<close>

text \<open>
  \<^verbatim>\<open>try {
    const response = await sendMCPRequest(
      { method: "tools/call",
        params: { name, arguments: params,
                  _meta: { progressToken: progressTokenRef.current++ } } },
      CompatibilityCallToolResultSchema, "tools")
    setToolResult(response)
  } catch (e) {
    const toolResult = {
      content: [{ type: "text", text: (e as Error).message ?? String(e) }],
      isError: true }
    setToolResult(toolResult)
  }\<close>
  The request object is built, and the counter read and incremented, before the
  request is sent. Both branches end normally: the result is always \<open>Inr ()\<close>.
\<close>

definition callTool ::
  "CompatibilityCallToolResult makeRequest \<Rightarrow> string \<Rightarrow> json \<Rightarrow> App \<Rightarrow> (thrown + unit) \<times> App"
  where
  "callTool makeRequest name arguments s =
     (let progressToken = progressTokenRef s;
          s0 = s\<lparr>progressTokenRef := progressTokenRef s + 1\<rparr> in
      case sendMCPRequest makeRequest
             \<lparr>method' = ''tools/call'', params = Call_params name arguments progressToken\<rparr>
             (Some ''tools'') s0 of
        (Inr response, s') \<Rightarrow> (Inr (), s'\<lparr>toolResult := Some response\<rparr>)
      | (Inl e, s') \<Rightarrow>
          (Inr (), s'\<lparr>toolResult :=
                       Some (CallToolResult [TextContent (errorString e)] (Some True))\<rparr>))"

text \<open>
  The operations of a session on the request state, each with the behaviour of the
  server at the time of the call, and a session as a sequence of them. A failure
  that leaves a list handler is dropped by its caller (the tab calls it without
  awaiting it), so the session goes on from the state the handler left.
\<close>

datatype App_op =
    ListResources "json list option ListResult makeRequest"
  | ListResourceTemplates "json list option ListResult makeRequest"
  | ListPrompts "json list ListResult makeRequest"
  | ListTools "json list ListResult makeRequest"
  | ClearResources
  | ClearResourceTemplates
  | ClearPrompts
  | ClearTools
  | CallTool "CompatibilityCallToolResult makeRequest" string json

fun App_step :: "App_op \<Rightarrow> App \<Rightarrow> App" where
  "App_step (ListResources mk) s = snd (listResources mk s)"
| "App_step (ListResourceTemplates mk) s = snd (listResourceTemplates mk s)"
| "App_step (ListPrompts mk) s = snd (listPrompts mk s)"
| "App_step (ListTools mk) s = snd (listTools mk s)"
| "App_step ClearResources s = clearResources s"
| "App_step ClearResourceTemplates s = clearResourceTemplates s"
| "App_step ClearPrompts s = clearPrompts s"
| "App_step ClearTools s = clearTools s"
| "App_step (CallTool mk name arguments) s = snd (callTool mk name arguments s)"

fun App_run :: "App_op list \<Rightarrow> App \<Rightarrow> App" where
  "App_run [] s = s"
| "App_run (x # xs) s = App_run xs (App_step x s)"

fun is_call :: "App_op \<Rightarrow> bool" where
  "is_call (CallTool mk name arguments) = True"
| "is_call x = False"

text \<open>The progress tokens attached to the requests sent so far, in the order sent.\<close>

fun token_of :: "ClientRequest \<Rightarrow> nat list" where
  "token_of req = (case params req of Call_params name arguments t \<Rightarrow> [t] | List_params c \<Rightarrow> [])"

definition tokens_sent :: "App \<Rightarrow> nat list" where
  "tokens_sent s = concat (map token_of (dispatched s))"

section \<open>The server selection (MCPServerButton)\<close>

text \<open>
  The second component in \<^verbatim>\<open>App.tsx\<close>. \<^verbatim>\<open>serverStates\<close> is an object keyed by server
  id; the model writes it as the list \<^verbatim>\<open>Object.entries(serverStates)\<close>, whose keys are
  pairwise different, and \<^verbatim>\<open>serverStates[id]\<close> as a lookup in that list.
  \<^verbatim>\<open>McpConnectionState\<close> is declared in \<^verbatim>\<open>@/types/mcp.types\<close>; the component names its
  four members.
\<close>

datatype McpConnectionState = Stopped | Starting | Running | Failed

record ServerState =
  status :: McpConnectionState
  server_tools :: "json list option"

type_synonym serverStates = "(string \<times> ServerState) list"

text \<open>\<^verbatim>\<open>serverStates[id] && serverStates[id].status === McpConnectionState.Running\<close>\<close>

definition is_running :: "serverStates \<Rightarrow> string \<Rightarrow> bool" where
  "is_running serverStates i =
     (case map_of serverStates i of None \<Rightarrow> False | Some st \<Rightarrow> status st = Running)"

text \<open>
  \<^verbatim>\<open>const updatedActiveIds = activeServerIds.filter(
    (id) => serverStates[id] && serverStates[id].status === McpConnectionState.Running)\<close>
\<close>

definition updatedActiveIds :: "serverStates \<Rightarrow> string list \<Rightarrow> string list" where
  "updatedActiveIds serverStates activeServerIds =
     filter (is_running serverStates) activeServerIds"

text \<open>
  \<^verbatim>\<open>const newActiveIds = Object.entries(serverStates)
    .filter(([id, state]) =>
       state.status === McpConnectionState.Running && !updatedActiveIds.includes(id))
    .map(([id]) => id)\<close>
\<close>

definition newActiveIds :: "serverStates \<Rightarrow> string list \<Rightarrow> string list" where
  "newActiveIds serverStates activeServerIds =
     map fst
       (filter (\<lambda>(i, st). status st = Running
                  \<and> i \<notin> set (updatedActiveIds serverStates activeServerIds))
          serverStates)"

text \<open>
  \<^verbatim>\<open>if (updatedActiveIds.length !== activeServerIds.length || newActiveIds.length > 0) {
    setActiveServerIds([...updatedActiveIds, ...newActiveIds])
  }\<close>
  The effect that runs when \<^verbatim>\<open>serverStates\<close> changes: \<open>Some ids\<close> is the call
  \<^verbatim>\<open>setActiveServerIds(ids)\<close>, \<open>None\<close> is no call.
\<close>

definition reconcile :: "serverStates \<Rightarrow> string list \<Rightarrow> string list option" where
  "reconcile serverStates activeServerIds =
     (if length (updatedActiveIds serverStates activeServerIds) \<noteq> length activeServerIds
         \<or> length (newActiveIds serverStates activeServerIds) > 0
      then Some (updatedActiveIds serverStates activeServerIds
                 @ newActiveIds serverStates activeServerIds)
      else None)"

text \<open>\<^verbatim>\<open>activeServerIds\<close> once the effect has run.\<close>

definition reconciled :: "serverStates \<Rightarrow> string list \<Rightarrow> string list" where
  "reconciled serverStates activeServerIds =
     (case reconcile serverStates activeServerIds of
        None \<Rightarrow> activeServerIds
      | Some ids \<Rightarrow> ids)"

text \<open>
  \<^verbatim>\<open>const totalAvailableTools = Object.entries(serverStates)
    .filter(([id]) => activeServerIds.includes(id))
    .reduce((count, [_, server]) => {
      if (server.status === McpConnectionState.Running && server.tools) {
        return count + server.tools.length
      }
      return count
    }, 0)\<close>
  An array is truthy, also when empty; \<^verbatim>\<open>undefined\<close> is not.
\<close>

definition totalAvailableTools :: "serverStates \<Rightarrow> string list \<Rightarrow> nat" where
  "totalAvailableTools serverStates activeServerIds =
     foldl (\<lambda>count (i, server).
              (if status server = Running
               then (case server_tools server of
                       Some ts \<Rightarrow> count + length ts
                     | None \<Rightarrow> count)
               else count))
       0
       (filter (\<lambda>(i, server). i \<in> set activeServerIds) serverStates)"

text \<open>\<^verbatim>\<open>tools.length\<close> of a server, 0 when it has no \<^verbatim>\<open>tools\<close>.\<close>

definition tools_length :: "ServerState \<Rightarrow> nat" where
  "tools_length server = (case server_tools server of None \<Rightarrow> 0 | Some ts \<Rightarrow> length ts)"

section \<open>Properties of the sampling queue\<close>

text \<open>What each handler does, with the runs of its updater put together.\<close>

lemma replicate_two: "replicate 2 x = [x, x]"
  by (simp add: numeral_2_eq_2)

lemma onPendingRequest_eq:
  "onPendingRequest mode req s =
     s\<lparr>pendingSampleRequests :=
         pendingSampleRequests s
           @ [\<lparr>id' = nextRequestId s + (updater_runs mode - 1), request = req\<rparr>],
       nextRequestId := nextRequestId s + updater_runs mode\<rparr>"
  by (cases mode)
     (simp_all add: onPendingRequest_def setPendingSampleRequests_def
        onPendingRequest_updater_def)

lemma handleApproveSampling_eq:
  "handleApproveSampling mode i result s =
     s\<lparr>invocations :=
         invocations s
           @ (case find (\<lambda>r. id' r = i) (pendingSampleRequests s) of
                None \<Rightarrow> []
              | Some r \<Rightarrow> replicate (updater_runs mode) (Resolve_called r result)),
       pendingSampleRequests := filter (\<lambda>r. id' r \<noteq> i) (pendingSampleRequests s)\<rparr>"
  by (cases mode)
     (simp_all add: handleApproveSampling_def setPendingSampleRequests_def
        handleApproveSampling_updater_def Let_def replicate_two split: option.splits)

lemma handleRejectSampling_eq:
  "handleRejectSampling mode i s =
     s\<lparr>invocations :=
         invocations s
           @ (case find (\<lambda>r. id' r = i) (pendingSampleRequests s) of
                None \<Rightarrow> []
              | Some r \<Rightarrow> replicate (updater_runs mode)
                           (Reject_called r (Error ''Sampling request rejected''))),
       pendingSampleRequests := filter (\<lambda>r. id' r \<noteq> i) (pendingSampleRequests s)\<rparr>"
  by (cases mode)
     (simp_all add: handleRejectSampling_def setPendingSampleRequests_def
        handleRejectSampling_updater_def Let_def replicate_two split: option.splits)

lemmas handler_eqs = onPendingRequest_eq handleApproveSampling_eq handleRejectSampling_eq

lemma updater_runs_pos: "0 < updater_runs mode"
  by (cases mode) simp_all

lemma calls_of_decision:
  "calls_of mode (Approve i result) r = replicate (updater_runs mode) (Resolve_called r result)"
  "calls_of mode (Reject i) r
     = replicate (updater_runs mode) (Reject_called r (Error ''Sampling request rejected''))"
  by (cases mode; simp add: calls_of_def)+

lemma find_id_in:
  "find (\<lambda>r. id' r = i) q = Some r \<Longrightarrow> r \<in> set q \<and> id' r = i"
  by (induction q) (auto split: if_splits)

lemma find_id_in':
  "Some r = find (\<lambda>r. id' r = i) q \<Longrightarrow> r \<in> set q \<and> id' r = i"
  by (rule find_id_in) simp

lemma find_id_distinct:
  "distinct (map id' q) \<Longrightarrow> r \<in> set q \<Longrightarrow> find (\<lambda>x. id' x = id' r) q = Some r"
  by (induction q) (auto simp: rev_image_eqI)

lemma find_id_None:
  "i \<notin> set (map id' q) \<Longrightarrow> find (\<lambda>r. id' r = i) q = None"
  by (induction q) auto

lemma filter_id_absent:
  "i \<notin> set (map id' q) \<Longrightarrow> filter (\<lambda>r. id' r \<noteq> i) q = q"
  by (induction q) auto

lemma sampling_inv_init: "sampling_inv Sampling_init"
  by (simp add: sampling_inv_def Sampling_init_def)

lemma sampling_inv_enqueue:
  "sampling_inv s \<Longrightarrow> sampling_inv (onPendingRequest mode req s)"
  using updater_runs_pos [of mode]
  by (auto simp: sampling_inv_def onPendingRequest_eq list_all_iff)

lemma sampling_inv_approve:
  "sampling_inv s \<Longrightarrow> sampling_inv (handleApproveSampling mode i res s)"
  by (auto simp: sampling_inv_def handleApproveSampling_eq list_all_iff distinct_map_filter
      split: option.splits dest: find_id_in find_id_in')

lemma sampling_inv_reject:
  "sampling_inv s \<Longrightarrow> sampling_inv (handleRejectSampling mode i s)"
  by (auto simp: sampling_inv_def handleRejectSampling_eq list_all_iff distinct_map_filter
      split: option.splits dest: find_id_in find_id_in')

lemma sampling_inv_step: "sampling_inv s \<Longrightarrow> sampling_inv (sampling_step mode e s)"
  by (cases e) (simp_all add: sampling_inv_enqueue sampling_inv_approve sampling_inv_reject)

lemma sampling_inv_run: "sampling_inv s \<Longrightarrow> sampling_inv (sampling_run mode es s)"
  by (induction es arbitrary: s) (simp_all add: sampling_inv_step)

lemma step_counter_mono: "nextRequestId s \<le> nextRequestId (sampling_step mode e s)"
  by (cases e) (simp_all add: handler_eqs)

text \<open>An entry that is not queued and whose id is already used is never called again.\<close>

lemma step_absent:
  assumes "id' r \<notin> set (map id' (pendingSampleRequests s))" and "id' r < nextRequestId s"
  shows "id' r \<notin> set (map id' (pendingSampleRequests (sampling_step mode e s)))
       \<and> id' r < nextRequestId (sampling_step mode e s)
       \<and> filter (\<lambda>c. target c = r) (invocations (sampling_step mode e s))
           = filter (\<lambda>c. target c = r) (invocations s)"
  using assms
  by (cases e)
     (auto simp: handler_eqs filter_replicate split: option.splits dest: find_id_in find_id_in')

lemma run_absent:
  "id' r \<notin> set (map id' (pendingSampleRequests s)) \<Longrightarrow> id' r < nextRequestId s \<Longrightarrow>
   r \<notin> set (pendingSampleRequests (sampling_run mode es s))
   \<and> filter (\<lambda>c. target c = r) (invocations (sampling_run mode es s))
       = filter (\<lambda>c. target c = r) (invocations s)"
proof (induction es arbitrary: s)
  case Nil
  then show ?case by auto
next
  case (Cons e es)
  from step_absent [OF Cons.prems, of mode e] Cons.IH [of "sampling_step mode e s"]
  show ?case by simp
qed

text \<open>A decision on another id leaves a queued entry queued and uncalled.\<close>

lemma step_other:
  assumes "r \<in> set (pendingSampleRequests s)" and "decided_id e \<noteq> Some (id' r)"
  shows "r \<in> set (pendingSampleRequests (sampling_step mode e s))
       \<and> filter (\<lambda>c. target c = r) (invocations (sampling_step mode e s))
           = filter (\<lambda>c. target c = r) (invocations s)"
  using assms
  by (cases e)
     (auto simp: handler_eqs filter_replicate split: option.splits dest: find_id_in find_id_in')

text \<open>
  A decision on a queued entry's id calls that entry, once per run of the updater,
  and removes it.
\<close>

lemma step_this:
  assumes "distinct (map id' (pendingSampleRequests s))"
    and "r \<in> set (pendingSampleRequests s)" and "decided_id e = Some (id' r)"
  shows "id' r \<notin> set (map id' (pendingSampleRequests (sampling_step mode e s)))
       \<and> invocations (sampling_step mode e s) = invocations s @ calls_of mode e r
       \<and> pendingSampleRequests (sampling_step mode e s)
           = filter (\<lambda>x. id' x \<noteq> id' r) (pendingSampleRequests s)"
  using assms
  by (cases e) (auto simp: handler_eqs calls_of_decision find_id_distinct)

lemma inv_uncalled:
  "sampling_inv s \<Longrightarrow> r \<in> set (pendingSampleRequests s) \<Longrightarrow>
   filter (\<lambda>c. target c = r) (invocations s) = []"
  by (auto simp: sampling_inv_def list_all_iff filter_empty_conv)

lemma calls_of_target: "filter (\<lambda>c. target c = r) (calls_of mode e r) = calls_of mode e r"
  by (cases e; cases mode) (simp_all add: calls_of_def)

lemma run_present:
  "sampling_inv s \<Longrightarrow> r \<in> set (pendingSampleRequests s) \<Longrightarrow>
   filter (\<lambda>c. target c = r) (invocations (sampling_run mode ds s))
     = (case find (\<lambda>d. decided_id d = Some (id' r)) ds of
          None \<Rightarrow> [] | Some d \<Rightarrow> calls_of mode d r)
   \<and> (r \<in> set (pendingSampleRequests (sampling_run mode ds s))
        \<longleftrightarrow> find (\<lambda>d. decided_id d = Some (id' r)) ds = None)"
proof (induction ds arbitrary: s)
  case Nil
  then show ?case by (simp add: inv_uncalled)
next
  case (Cons d ds)
  show ?case
  proof (cases "decided_id d = Some (id' r)")
    case True
    from Cons.prems have dist: "distinct (map id' (pendingSampleRequests s))"
      and below: "id' r < nextRequestId s"
      by (auto simp: sampling_inv_def list_all_iff)
    from step_this [OF dist Cons.prems(2) True, of mode]
    have gone: "id' r \<notin> set (map id' (pendingSampleRequests (sampling_step mode d s)))"
      and called: "invocations (sampling_step mode d s) = invocations s @ calls_of mode d r"
      by blast+
    from below step_counter_mono [of s mode d]
    have below': "id' r < nextRequestId (sampling_step mode d s)" by simp
    from run_absent [OF gone below', of mode ds] called True
    show ?thesis
      by (simp add: inv_uncalled [OF Cons.prems] calls_of_target)
  next
    case False
    from step_other [OF Cons.prems(2) False, of mode]
    have "r \<in> set (pendingSampleRequests (sampling_step mode d s))"
      and "filter (\<lambda>c. target c = r) (invocations (sampling_step mode d s))
           = filter (\<lambda>c. target c = r) (invocations s)"
      by simp_all
    with Cons.IH [of "sampling_step mode d s"] sampling_inv_step [OF Cons.prems(1), of mode d]
      False
    show ?thesis by simp
  qed
qed

lemma step_unknown_id:
  "decided_id d = Some i \<Longrightarrow> i \<notin> set (map id' (pendingSampleRequests t)) \<Longrightarrow>
   sampling_step mode d t = t"
  by (cases d) (simp_all add: handler_eqs find_id_None filter_id_absent)

lemma step_id_removed:
  "decided_id d = Some i \<Longrightarrow>
   i \<notin> set (map id' (pendingSampleRequests (sampling_step mode d t)))"
  by (cases d) (auto simp: handler_eqs)

text \<open>
  The calls a queued entry receives over any further events: those of the first
  decision that names its id, one per run of that decision's updater, and no others.
  A decision whose id is not queued changes nothing, and so does a second decision on
  an id already decided. With one run per updater this is one call per entry.
\<close>

lemma sampling_calls_per_decision:
  assumes "r \<in> set (pendingSampleRequests (sampling_run mode es Sampling_init))"
  shows "filter (\<lambda>c. target c = r)
           (invocations (sampling_run mode ds (sampling_run mode es Sampling_init)))
         = (case find (\<lambda>d. decided_id d = Some (id' r)) ds of
              None \<Rightarrow> [] | Some d \<Rightarrow> calls_of mode d r)
       \<and> (r \<in> set (pendingSampleRequests
                      (sampling_run mode ds (sampling_run mode es Sampling_init)))
            \<longleftrightarrow> find (\<lambda>d. decided_id d = Some (id' r)) ds = None)
       \<and> (decided_id d = Some i \<and> i \<notin> set (map id' (pendingSampleRequests t))
            \<longrightarrow> sampling_step mode d t = t)
       \<and> (decided_id d = Some i \<and> decided_id d' = Some i
            \<longrightarrow> sampling_step mode d' (sampling_step mode d t) = sampling_step mode d t)"
proof -
  have inv: "sampling_inv (sampling_run mode es Sampling_init)"
    by (rule sampling_inv_run [OF sampling_inv_init])
  from run_present [OF inv assms, of mode ds] step_unknown_id [of d i t mode]
    step_unknown_id [of d' i "sampling_step mode d t" mode] step_id_removed [of d i mode t]
  show ?thesis by blast
qed

lemma calls_of_Production: "calls_of Production d r = call_of d r"
  by (simp add: calls_of_def)

text \<open>
  Claim C2. In a development build under the repository's \<^verbatim>\<open>reactStrictMode: true\<close>,
  one sampling request arrives and the operator approves it once. The updater of
  \<^verbatim>\<open>handleApproveSampling\<close> runs twice on the same queue, finds the entry both times,
  and calls its \<^verbatim>\<open>resolve\<close> closure twice: the entry's resolution is invoked two times,
  not exactly once. A rejection calls \<^verbatim>\<open>reject\<close> twice in the same way. In a production
  build the same events give one call.
\<close>

theorem approve_resolves_twice_in_strict_mode:
  "pendingSampleRequests (sampling_run StrictDev [Enqueue ''ask''] Sampling_init)
     = [\<lparr>id' = 1, request = ''ask''\<rparr>]
   \<and> invocations (sampling_run StrictDev [Enqueue ''ask'', Approve 1 ''ok''] Sampling_init)
     = [Resolve_called \<lparr>id' = 1, request = ''ask''\<rparr> ''ok'',
        Resolve_called \<lparr>id' = 1, request = ''ask''\<rparr> ''ok'']
   \<and> pendingSampleRequests
       (sampling_run StrictDev [Enqueue ''ask'', Approve 1 ''ok''] Sampling_init) = []
   \<and> invocations (sampling_run StrictDev [Enqueue ''ask'', Reject 1] Sampling_init)
     = [Reject_called \<lparr>id' = 1, request = ''ask''\<rparr> (Error ''Sampling request rejected''),
        Reject_called \<lparr>id' = 1, request = ''ask''\<rparr> (Error ''Sampling request rejected'')]
   \<and> invocations (sampling_run Production [Enqueue ''ask'', Approve 0 ''ok''] Sampling_init)
     = [Resolve_called \<lparr>id' = 0, request = ''ask''\<rparr> ''ok'']"
  by (simp add: Sampling_init_def onPendingRequest_def handleApproveSampling_def
        handleRejectSampling_def setPendingSampleRequests_def onPendingRequest_updater_def
        handleApproveSampling_updater_def handleRejectSampling_updater_def)

lemma filter_id_removeAll:
  "distinct (map id' q) \<Longrightarrow> r \<in> set q \<Longrightarrow> filter (\<lambda>x. id' x \<noteq> id' r) q = removeAll r q"
  unfolding removeAll_filter_not_eq
  by (rule filter_cong) (auto simp: distinct_map dest: inj_onD)

text \<open>
  Claim C8. Rejecting a queued entry calls the entry's \<^verbatim>\<open>reject\<close> closure with the
  fixed error \<^verbatim>\<open>new Error("Sampling request rejected")\<close> (once for every run of the
  updater, so at least once, and it makes no other call) and removes that entry and no
  other from the queue. This holds in a production build and in a development build.
\<close>

theorem reject_calls_reject_and_removes:
  assumes "s = sampling_run mode es Sampling_init" and "r \<in> set (pendingSampleRequests s)"
  shows "invocations (handleRejectSampling mode (id' r) s)
           = invocations s
             @ replicate (updater_runs mode)
                 (Reject_called r (Error ''Sampling request rejected''))
       \<and> 0 < updater_runs mode
       \<and> Reject_called r (Error ''Sampling request rejected'')
            \<in> set (invocations (handleRejectSampling mode (id' r) s))
       \<and> set (invocations (handleRejectSampling mode (id' r) s))
           = insert (Reject_called r (Error ''Sampling request rejected'')) (set (invocations s))
       \<and> pendingSampleRequests (handleRejectSampling mode (id' r) s)
           = removeAll r (pendingSampleRequests s)
       \<and> r \<notin> set (pendingSampleRequests (handleRejectSampling mode (id' r) s))
       \<and> nextRequestId (handleRejectSampling mode (id' r) s) = nextRequestId s"
proof -
  have "sampling_inv s"
    unfolding assms(1) by (rule sampling_inv_run [OF sampling_inv_init])
  then have dist: "distinct (map id' (pendingSampleRequests s))"
    by (simp add: sampling_inv_def)
  have found: "find (\<lambda>x. id' x = id' r) (pendingSampleRequests s) = Some r"
    by (rule find_id_distinct [OF dist assms(2)])
  have pos: "0 < updater_runs mode"
    by (rule updater_runs_pos)
  then have elems: "set (replicate (updater_runs mode)
        (Reject_called r (Error ''Sampling request rejected'')))
      = {Reject_called r (Error ''Sampling request rejected'')}"
    by simp
  show ?thesis
    using pos elems
    by (simp add: handleRejectSampling_eq found filter_id_removeAll [OF dist assms(2)])
qed

theorem reject_calls_reject_and_removes_witness:
  "\<lparr>id' = 1, request = ''b''\<rparr> \<in> set (pendingSampleRequests
      (sampling_run Production [Enqueue ''a'', Enqueue ''b'', Enqueue ''c''] Sampling_init))
   \<and> handleRejectSampling Production 1
       (sampling_run Production [Enqueue ''a'', Enqueue ''b'', Enqueue ''c''] Sampling_init)
     = \<lparr>pendingSampleRequests = [\<lparr>id' = 0, request = ''a''\<rparr>, \<lparr>id' = 2, request = ''c''\<rparr>],
        nextRequestId = 3,
        invocations = [Reject_called \<lparr>id' = 1, request = ''b''\<rparr>
                         (Error ''Sampling request rejected'')]\<rparr>
   \<and> \<lparr>id' = 3, request = ''b''\<rparr> \<in> set (pendingSampleRequests
      (sampling_run StrictDev [Enqueue ''a'', Enqueue ''b'', Enqueue ''c''] Sampling_init))
   \<and> handleRejectSampling StrictDev 3
       (sampling_run StrictDev [Enqueue ''a'', Enqueue ''b'', Enqueue ''c''] Sampling_init)
     = \<lparr>pendingSampleRequests = [\<lparr>id' = 1, request = ''a''\<rparr>, \<lparr>id' = 5, request = ''c''\<rparr>],
        nextRequestId = 6,
        invocations = [Reject_called \<lparr>id' = 3, request = ''b''\<rparr>
                         (Error ''Sampling request rejected''),
                       Reject_called \<lparr>id' = 3, request = ''b''\<rparr>
                         (Error ''Sampling request rejected'')]\<rparr>"
  using reject_calls_reject_and_removes
    [of "sampling_run Production [Enqueue ''a'', Enqueue ''b'', Enqueue ''c''] Sampling_init"
        Production "[Enqueue ''a'', Enqueue ''b'', Enqueue ''c'']" "\<lparr>id' = 1, request = ''b''\<rparr>"]
    reject_calls_reject_and_removes
    [of "sampling_run StrictDev [Enqueue ''a'', Enqueue ''b'', Enqueue ''c''] Sampling_init"
        StrictDev "[Enqueue ''a'', Enqueue ''b'', Enqueue ''c'']" "\<lparr>id' = 3, request = ''b''\<rparr>"]
  by (simp add: Sampling_init_def onPendingRequest_eq handleRejectSampling_eq replicate_two)

lemma upt_from: "[n ..< Suc (n + k)] = n # [Suc n ..< Suc (n + k)]"
  by (rule upt_conv_Cons) simp

text \<open>
  The ids handed out from a state with counter \<open>c\<close>: every enqueue takes the value the
  last run of its updater reads, and leaves the counter higher by the number of runs.
\<close>

lemma assigned_ids_eq:
  "assigned_ids mode es s
     = map (\<lambda>k. nextRequestId s + updater_runs mode * k + (updater_runs mode - 1))
         [0 ..< length (filter is_enqueue es)]"
proof (induction es arbitrary: s)
  case Nil
  show ?case by simp
next
  case (Cons e es)
  show ?case
  proof (cases e)
    case (Enqueue req)
    have "assigned_ids mode (e # es) s
        = (nextRequestId s + (updater_runs mode - 1))
          # assigned_ids mode es (onPendingRequest mode req s)"
      by (simp add: Enqueue onPendingRequest_eq)
    also have "assigned_ids mode es (onPendingRequest mode req s)
        = map (\<lambda>k. nextRequestId s + updater_runs mode * Suc k + (updater_runs mode - 1))
            [0 ..< length (filter is_enqueue es)]"
      by (simp add: Cons.IH onPendingRequest_eq algebra_simps)
    finally show ?thesis
      by (simp add: Enqueue map_upt_Suc del: upt_Suc)
  next
    case (Approve i res)
    then show ?thesis
      by (simp add: Cons.IH handleApproveSampling_eq)
  next
    case (Reject i)
    then show ?thesis
      by (simp add: Cons.IH handleRejectSampling_eq)
  qed
qed

lemma assigned_ids_sorted: "sorted_wrt (<) (assigned_ids mode es s)"
proof -
  let ?f = "\<lambda>k. nextRequestId s + updater_runs mode * k + (updater_runs mode - 1)"
  have mono: "?f i < ?f j" if "i < j" for i j
  proof -
    from that updater_runs_pos [of mode]
    have "updater_runs mode * i < updater_runs mode * j" by simp
    then show ?thesis by linarith
  qed
  have "sorted_wrt (<) [0 ..< length (filter is_enqueue es)]"
    by simp
  then have "sorted_wrt (\<lambda>a b. ?f a < ?f b) [0 ..< length (filter is_enqueue es)]"
    by (rule sorted_wrt_mono_rel [rotated]) (rule mono)
  then show ?thesis
    unfolding assigned_ids_eq sorted_wrt_map .
qed

lemma assigned_ids_Production:
  "assigned_ids Production es s
     = [nextRequestId s ..< nextRequestId s + length (filter is_enqueue es)]"
proof -
  have "assigned_ids Production es s
      = map (\<lambda>k. k + nextRequestId s) [0 ..< length (filter is_enqueue es)]"
    by (simp add: assigned_ids_eq add.commute)
  then show ?thesis
    by (simp only: map_add_upt add.commute)
qed

lemma queued_ids_sorted:
  "sorted_wrt (<) (map id' (pendingSampleRequests s)) \<Longrightarrow>
   list_all (\<lambda>r. id' r < nextRequestId s) (pendingSampleRequests s) \<Longrightarrow>
   sorted_wrt (<) (map id' (pendingSampleRequests (sampling_step mode e s)))
   \<and> list_all (\<lambda>r. id' r < nextRequestId (sampling_step mode e s))
        (pendingSampleRequests (sampling_step mode e s))"
  using updater_runs_pos [of mode]
  by (cases e)
     (auto simp: handler_eqs list_all_iff sorted_wrt_append sorted_wrt_map sorted_wrt_filter)

lemma queued_ids_sorted_run:
  "sorted_wrt (<) (map id' (pendingSampleRequests s)) \<Longrightarrow>
   list_all (\<lambda>r. id' r < nextRequestId s) (pendingSampleRequests s) \<Longrightarrow>
   sorted_wrt (<) (map id' (pendingSampleRequests (sampling_run mode es s)))"
proof (induction es arbitrary: s)
  case Nil
  then show ?case by simp
next
  case (Cons e es)
  from queued_ids_sorted [OF Cons.prems, of mode e] Cons.IH [of "sampling_step mode e s"]
  show ?case by simp
qed

text \<open>
  Claim C9. The ids given to sampling requests increase strictly in the order of
  arrival, whatever approvals and rejections happen in between, so no two requests
  get the same id; this holds from any state, with one or with two runs of each
  updater, and the ids of the queued entries are in increasing order too. With one
  run per updater the ids are the successive values of the counter, 0, 1, 2, ...
  from the start of the component; in general the k-th enqueue after a state with
  counter \<open>c\<close> gets \<open>c + runs * k + (runs - 1)\<close>.
\<close>

theorem pending_ids_strictly_increasing:
  "assigned_ids Production es Sampling_init = [0 ..< length (filter is_enqueue es)]
   \<and> sorted_wrt (<) (assigned_ids mode es s)
   \<and> distinct (assigned_ids mode es s)
   \<and> map id' (pendingSampleRequests
               (sampling_run Production (map Enqueue reqs) Sampling_init))
       = [0 ..< length reqs]
   \<and> sorted_wrt (<) (map id' (pendingSampleRequests (sampling_run mode es Sampling_init)))
   \<and> assigned_ids mode es s
       = map (\<lambda>k. nextRequestId s + updater_runs mode * k + (updater_runs mode - 1))
           [0 ..< length (filter is_enqueue es)]"
proof -
  have queue: "map id' (pendingSampleRequests (sampling_run Production (map Enqueue reqs) t))
      = map id' (pendingSampleRequests t) @ [nextRequestId t ..< nextRequestId t + length reqs]"
    for t
  proof (induction reqs arbitrary: t)
    case Nil
    show ?case by simp
  next
    case (Cons q reqs)
    show ?case
      by (simp add: Cons.IH onPendingRequest_eq upt_from del: upt_Suc)
  qed
  have sorted_queue:
    "sorted_wrt (<) (map id' (pendingSampleRequests (sampling_run mode es Sampling_init)))"
    by (rule queued_ids_sorted_run) (simp_all add: Sampling_init_def)
  have "distinct (assigned_ids mode es s)"
    using assigned_ids_sorted [of mode es s] by (simp add: strict_sorted_iff)
  with queue [of Sampling_init] sorted_queue assigned_ids_sorted [of mode es s]
    assigned_ids_eq [of mode es s]
  show ?thesis
    by (simp add: assigned_ids_Production Sampling_init_def)
qed

section \<open>Properties of the dispatcher and of the request handlers\<close>

lemma sendMCPRequest_errors:
  "errors (snd (sendMCPRequest mk req (Some c) s))
     = (errors s)(c := (case mk req of Inl e \<Rightarrow> Some (errorString e) | Inr response \<Rightarrow> None))"
  by (simp add: sendMCPRequest_def clearError_def Let_def split: sum.splits)

lemma sendMCPRequest_result: "fst (sendMCPRequest mk req tabKey s) = mk req"
  by (simp add: sendMCPRequest_def Let_def split: sum.splits)

text \<open>
  Claim C3. A request dispatched with a tab key \<open>c\<close> changes the error entry of
  \<open>c\<close> only: a success sets it to \<^verbatim>\<open>null\<close>, a failure sets it to the error's
  message (whatever it held before), and the entry of every other key \<open>c'\<close> is as
  it was. This holds for every key, so for \<^verbatim>\<open>resources\<close>, \<^verbatim>\<open>prompts\<close> and \<^verbatim>\<open>tools\<close>.
\<close>

theorem category_errors_isolated:
  "(mk req = Inr response \<longrightarrow>
      errors (snd (sendMCPRequest mk req (Some c) s)) = (errors s)(c := None))
   \<and> (mk req = Inl e \<longrightarrow>
      errors (snd (sendMCPRequest mk req (Some c) s)) = (errors s)(c := Some (errorString e)))
   \<and> (c' \<noteq> c \<longrightarrow> errors (snd (sendMCPRequest mk req (Some c) s)) c' = errors s c')"
  by (simp add: sendMCPRequest_errors)

theorem category_errors_isolated_witness:
  "(let failing = (\<lambda>req. Inl (Thrown (Some ''Connection closed'') ''Error: Connection closed''));
        answering = (\<lambda>req. Inr \<lparr>items = [''r1''], nextCursor = None\<rparr>);
        call = \<lparr>method' = ''tools/list'', params = List_params None\<rparr>;
        list = \<lparr>method' = ''resources/list'', params = List_params None\<rparr>;
        s1 = snd (sendMCPRequest failing call (Some ''tools'')
                    (App_init\<lparr>errors := (\<lambda>k. Some ''old'')\<rparr>));
        s2 = snd (sendMCPRequest answering list (Some ''resources'') s1)
    in ''tools'' \<noteq> ''resources''
       \<and> errors s1 ''tools'' = Some ''Connection closed''
       \<and> errors s1 ''resources'' = Some ''old''
       \<and> errors s2 ''resources'' = None
       \<and> errors s2 ''tools'' = Some ''Connection closed''
       \<and> errors s2 ''prompts'' = Some ''old'')"
  using category_errors_isolated
    [of "\<lambda>req. Inl (Thrown (Some ''Connection closed'') ''Error: Connection closed'') :: thrown + json list ListResult"
        "\<lparr>method' = ''tools/list'', params = List_params None\<rparr>"
        "\<lparr>items = [], nextCursor = None\<rparr>"
        "''tools''" "App_init\<lparr>errors := (\<lambda>k. Some ''old'')\<rparr>"
        "Thrown (Some ''Connection closed'') ''Error: Connection closed''" "''resources''"]
    category_errors_isolated
    [of "\<lambda>req. Inr \<lparr>items = [''r1''], nextCursor = None\<rparr> :: thrown + json list ListResult"
        "\<lparr>method' = ''resources/list'', params = List_params None\<rparr>"
        "\<lparr>items = [''r1''], nextCursor = None\<rparr>" "''resources''"
        "snd (sendMCPRequest (\<lambda>req. Inl (Thrown (Some ''Connection closed'') ''Error: Connection closed'') :: thrown + json list ListResult)
                \<lparr>method' = ''tools/list'', params = List_params None\<rparr> (Some ''tools'')
                (App_init\<lparr>errors := (\<lambda>k. Some ''old'')\<rparr>))"
        "Thrown None []" "''tools''"]
  by (simp add: Let_def errorString_def sendMCPRequest_def clearError_def App_init_def)

text \<open>
  Claim C5. When the request fails and a tab key is given, the error's message is
  stored under that key and the same failure leaves \<^verbatim>\<open>sendMCPRequest\<close>: the caller
  receives \<open>Inl e\<close>, the value \<^verbatim>\<open>makeRequest\<close> threw. The text stored is the thrown
  value's \<^verbatim>\<open>message\<close> when it has one, and \<^verbatim>\<open>String(e)\<close> only when it has none.
\<close>

theorem failure_recorded_and_rethrown:
  assumes "mk req = Inl e"
  shows "fst (sendMCPRequest mk req (Some c) s) = Inl e
       \<and> errors (snd (sendMCPRequest mk req (Some c) s)) c = Some (errorString e)
       \<and> (message e = Some m
            \<longrightarrow> errors (snd (sendMCPRequest mk req (Some c) s)) c = Some m)
       \<and> (message e = None
            \<longrightarrow> errors (snd (sendMCPRequest mk req (Some c) s)) c = Some (String e))"
  using assms
  by (simp add: sendMCPRequest_errors sendMCPRequest_result errorString_def)

theorem failure_recorded_and_rethrown_witness:
  "(\<lambda>req. Inl (Thrown (Some ''boom'') ''Error: boom'') :: thrown + json list ListResult)
      \<lparr>method' = ''tools/list'', params = List_params None\<rparr>
     = Inl (Thrown (Some ''boom'') ''Error: boom'')
   \<and> message (Thrown (Some ''boom'') ''Error: boom'') = Some ''boom''
   \<and> sendMCPRequest
        (\<lambda>req. Inl (Thrown (Some ''boom'') ''Error: boom'') :: thrown + json list ListResult)
        \<lparr>method' = ''tools/list'', params = List_params None\<rparr> (Some ''tools'') App_init
      = (Inl (Thrown (Some ''boom'') ''Error: boom''),
         App_init\<lparr>errors := (\<lambda>k. None)(''tools'' := Some ''boom''),
                   dispatched := [\<lparr>method' = ''tools/list'', params = List_params None\<rparr>]\<rparr>)
   \<and> (\<lambda>req. Inl (Thrown None ''timeout'') :: thrown + json list ListResult)
      \<lparr>method' = ''prompts/list'', params = List_params None\<rparr> = Inl (Thrown None ''timeout'')
   \<and> message (Thrown None ''timeout'') = None
   \<and> sendMCPRequest (\<lambda>req. Inl (Thrown None ''timeout'') :: thrown + json list ListResult)
        \<lparr>method' = ''prompts/list'', params = List_params None\<rparr> (Some ''prompts'') App_init
      = (Inl (Thrown None ''timeout''),
         App_init\<lparr>errors := (\<lambda>k. None)(''prompts'' := Some ''timeout''),
                   dispatched := [\<lparr>method' = ''prompts/list'', params = List_params None\<rparr>]\<rparr>)"
proof -
  let ?boom = "\<lambda>req :: ClientRequest.
      Inl (Thrown (Some ''boom'') ''Error: boom'') :: thrown + json list ListResult"
  let ?timeout = "\<lambda>req :: ClientRequest.
      Inl (Thrown None ''timeout'') :: thrown + json list ListResult"
  let ?tools = "\<lparr>method' = ''tools/list'', params = List_params None\<rparr>"
  let ?prompts = "\<lparr>method' = ''prompts/list'', params = List_params None\<rparr>"
  have with_message:
    "fst (sendMCPRequest ?boom ?tools (Some ''tools'') App_init)
       = Inl (Thrown (Some ''boom'') ''Error: boom'')
     \<and> errors (snd (sendMCPRequest ?boom ?tools (Some ''tools'') App_init)) ''tools''
       = Some ''boom''"
    using failure_recorded_and_rethrown
      [of ?boom ?tools "Thrown (Some ''boom'') ''Error: boom''" "''tools''" App_init "''boom''"]
    by (simp add: errorString_def)
  have without_message:
    "fst (sendMCPRequest ?timeout ?prompts (Some ''prompts'') App_init)
       = Inl (Thrown None ''timeout'')
     \<and> errors (snd (sendMCPRequest ?timeout ?prompts (Some ''prompts'') App_init)) ''prompts''
       = Some ''timeout''"
    using failure_recorded_and_rethrown
      [of ?timeout ?prompts "Thrown None ''timeout''" "''prompts''" App_init "''boom''"]
    by (simp add: errorString_def)
  have frame_boom:
    "snd (sendMCPRequest ?boom ?tools (Some ''tools'') App_init)
       = App_init\<lparr>errors := (\<lambda>k. None)
                     (''tools'' := errors (snd (sendMCPRequest ?boom ?tools (Some ''tools'')
                        App_init)) ''tools''),
                 dispatched := [?tools]\<rparr>"
    by (simp add: sendMCPRequest_def App_init_def)
  have frame_timeout:
    "snd (sendMCPRequest ?timeout ?prompts (Some ''prompts'') App_init)
       = App_init\<lparr>errors := (\<lambda>k. None)
                     (''prompts'' := errors (snd (sendMCPRequest ?timeout ?prompts
                        (Some ''prompts'') App_init)) ''prompts''),
                 dispatched := [?prompts]\<rparr>"
    by (simp add: sendMCPRequest_def App_init_def)
  from with_message without_message frame_boom frame_timeout
  show ?thesis
    by (simp add: prod_eq_iff)
qed



lemma sendMCPRequest_frame:
  "dispatched (snd (sendMCPRequest mk req tabKey s)) = dispatched s @ [req]
   \<and> progressTokenRef (snd (sendMCPRequest mk req tabKey s)) = progressTokenRef s
   \<and> resources (snd (sendMCPRequest mk req tabKey s)) = resources s
   \<and> resourceTemplates (snd (sendMCPRequest mk req tabKey s)) = resourceTemplates s
   \<and> prompts (snd (sendMCPRequest mk req tabKey s)) = prompts s
   \<and> tools (snd (sendMCPRequest mk req tabKey s)) = tools s
   \<and> nextResourceCursor (snd (sendMCPRequest mk req tabKey s)) = nextResourceCursor s
   \<and> nextResourceTemplateCursor (snd (sendMCPRequest mk req tabKey s))
       = nextResourceTemplateCursor s"
  by (simp add: sendMCPRequest_def clearError_def Let_def split: sum.splits option.splits)

lemma callTool_sends:
  "dispatched (snd (callTool mk name arguments s))
     = dispatched s
       @ [\<lparr>method' = ''tools/call'', params = Call_params name arguments (progressTokenRef s)\<rparr>]
   \<and> progressTokenRef (snd (callTool mk name arguments s)) = progressTokenRef s + 1"
  by (simp add: callTool_def sendMCPRequest_def clearError_def Let_def split: sum.splits)

lemma list_sends:
  "tokens_sent (snd (listResources mk1 s)) = tokens_sent s
   \<and> progressTokenRef (snd (listResources mk1 s)) = progressTokenRef s"
  "tokens_sent (snd (listResourceTemplates mk1 s)) = tokens_sent s
   \<and> progressTokenRef (snd (listResourceTemplates mk1 s)) = progressTokenRef s"
  "tokens_sent (snd (listPrompts mk2 s)) = tokens_sent s
   \<and> progressTokenRef (snd (listPrompts mk2 s)) = progressTokenRef s"
  "tokens_sent (snd (listTools mk2 s)) = tokens_sent s
   \<and> progressTokenRef (snd (listTools mk2 s)) = progressTokenRef s"
  by (simp_all add: listResources_def listResourceTemplates_def listPrompts_def listTools_def
        tokens_sent_def cursor_params_def sendMCPRequest_def clearError_def Let_def
      split: sum.splits)

lemma clear_sends:
  "tokens_sent (clearResources s) = tokens_sent s
   \<and> progressTokenRef (clearResources s) = progressTokenRef s"
  "tokens_sent (clearResourceTemplates s) = tokens_sent s
   \<and> progressTokenRef (clearResourceTemplates s) = progressTokenRef s"
  "tokens_sent (clearPrompts s) = tokens_sent s
   \<and> progressTokenRef (clearPrompts s) = progressTokenRef s"
  "tokens_sent (clearTools s) = tokens_sent s
   \<and> progressTokenRef (clearTools s) = progressTokenRef s"
  by (simp_all add: clearResources_def clearResourceTemplates_def clearPrompts_def
        clearTools_def tokens_sent_def)

lemma App_step_tokens:
  "tokens_sent (App_step x s) = tokens_sent s @ (if is_call x then [progressTokenRef s] else [])
   \<and> progressTokenRef (App_step x s) = progressTokenRef s + (if is_call x then 1 else 0)"
proof (cases x)
  case (CallTool mk name arguments)
  with callTool_sends [of mk name arguments s] show ?thesis
    by (simp add: tokens_sent_def)
qed (simp_all add: list_sends clear_sends)

lemma App_run_tokens:
  "tokens_sent (App_run xs s)
     = tokens_sent s @ [progressTokenRef s ..< progressTokenRef s + length (filter is_call xs)]
   \<and> progressTokenRef (App_run xs s) = progressTokenRef s + length (filter is_call xs)"
proof (induction xs arbitrary: s)
  case Nil
  show ?case by simp
next
  case (Cons x xs)
  show ?case
  proof (cases "is_call x")
    case True
    with Cons.IH [of "App_step x s"] App_step_tokens [of x s] show ?thesis
      by (simp add: upt_from del: upt_Suc)
  next
    case False
    with Cons.IH [of "App_step x s"] App_step_tokens [of x s] show ?thesis
      by simp
  qed
qed

text \<open>
  Claim C6. In any session (tool calls, list calls and clears in any order, failing
  or not) the progress tokens of the requests sent are 0, 1, 2, ... in the order
  sent: strictly increasing, none used twice. Each \<^verbatim>\<open>callTool\<close> sends exactly one
  request, carrying the counter's value on entry, and leaves the counter one higher,
  also when the request fails.
\<close>

theorem progress_tokens_strictly_increasing:
  "tokens_sent (App_run xs App_init) = [0 ..< length (filter is_call xs)]
   \<and> sorted_wrt (<) (tokens_sent (App_run xs App_init))
   \<and> distinct (tokens_sent (App_run xs App_init))
   \<and> dispatched (snd (callTool mk name arguments s))
       = dispatched s
         @ [\<lparr>method' = ''tools/call'',
             params = Call_params name arguments (progressTokenRef s)\<rparr>]
   \<and> progressTokenRef (snd (callTool mk name arguments s)) = progressTokenRef s + 1"
proof -
  have "tokens_sent (App_run xs App_init) = [0 ..< length (filter is_call xs)]"
    using App_run_tokens [of xs App_init] by (simp add: App_init_def tokens_sent_def)
  then show ?thesis
    using callTool_sends [of mk name arguments s] by simp
qed

lemma listResources_step:
  "resources (snd (listResources mk s))
     = resources s
       @ concat (case mk \<lparr>method' = ''resources/list'',
                          params = cursor_params (nextResourceCursor s)\<rparr> of
                   Inl e \<Rightarrow> [] | Inr response \<Rightarrow> [or_empty (items response)])"
  by (simp add: listResources_def sendMCPRequest_def clearError_def Let_def split: sum.splits)

lemma listResources_accumulates:
  "resources (listResources_run mks s) = resources s @ concat (listResources_pages mks s)"
  by (induction mks arbitrary: s) (simp_all add: listResources_step)

lemma listResourceTemplates_step:
  "resourceTemplates (snd (listResourceTemplates mk s))
     = resourceTemplates s
       @ concat (case mk \<lparr>method' = ''resources/templates/list'',
                          params = cursor_params (nextResourceTemplateCursor s)\<rparr> of
                   Inl e \<Rightarrow> [] | Inr response \<Rightarrow> [or_empty (items response)])"
  by (simp add: listResourceTemplates_def sendMCPRequest_def clearError_def Let_def
      split: sum.splits)

lemma listResourceTemplates_accumulates:
  "resourceTemplates (listResourceTemplates_run mks s)
     = resourceTemplates s @ concat (listResourceTemplates_pages mks s)"
  by (induction mks arbitrary: s) (simp_all add: listResourceTemplates_step)

lemma clear_then_list_first_page:
  "mk1 \<lparr>method' = ''resources/list'', params = List_params None\<rparr> = Inr r1 \<Longrightarrow>
     resources (snd (listResources mk1 (clearResources s))) = or_empty (items r1)"
  "mk1 \<lparr>method' = ''resources/templates/list'', params = List_params None\<rparr> = Inr r1 \<Longrightarrow>
     resourceTemplates (snd (listResourceTemplates mk1 (clearResourceTemplates s)))
       = or_empty (items r1)"
  "mk2 \<lparr>method' = ''prompts/list'', params = List_params None\<rparr> = Inr r2 \<Longrightarrow>
     prompts (snd (listPrompts mk2 (clearPrompts s))) = items r2"
  "mk2 \<lparr>method' = ''tools/list'', params = List_params None\<rparr> = Inr r2 \<Longrightarrow>
     tools (snd (listTools mk2 (clearTools s))) = items r2"
  by (simp_all add: listResources_def listResourceTemplates_def listPrompts_def listTools_def
        clearResources_def clearResourceTemplates_def clearPrompts_def clearTools_def
        cursor_params_def sendMCPRequest_def clearError_def Let_def)

text \<open>
  Claim C1, at the scenario of the specification. The first \<^verbatim>\<open>listTools\<close> stores the
  page \<^verbatim>\<open>[t1, t2]\<close> and the cursor \<^verbatim>\<open>c1\<close>; the second asks for the page at \<^verbatim>\<open>c1\<close>,
  receives \<^verbatim>\<open>[t3]\<close>, and leaves \<^verbatim>\<open>tools = [t3]\<close>, not \<^verbatim>\<open>[t1, t2, t3]\<close>.
  \<^verbatim>\<open>listPrompts\<close> does the same. (\<^verbatim>\<open>listResources\<close> and \<^verbatim>\<open>listResourceTemplates\<close>
  append: see \<open>listResources_accumulates\<close> and \<open>listResourceTemplates_accumulates\<close>.)
\<close>

theorem listTools_keeps_only_last_page:
  "tools (App_run [ListTools two_pages] App_init) = [''t1'', ''t2'']
   \<and> nextToolCursor (App_run [ListTools two_pages] App_init) = Some ''c1''
   \<and> tools (App_run [ListTools two_pages, ListTools two_pages] App_init) = [''t3'']
   \<and> dispatched (App_run [ListTools two_pages, ListTools two_pages] App_init)
       = [\<lparr>method' = ''tools/list'', params = List_params None\<rparr>,
          \<lparr>method' = ''tools/list'', params = List_params (Some ''c1'')\<rparr>]
   \<and> prompts (App_run [ListPrompts two_pages, ListPrompts two_pages] App_init) = [''t3'']"
  by (simp add: listTools_def listPrompts_def two_pages_def cursor_params_def sendMCPRequest_def
        clearError_def App_init_def Let_def)

section \<open>Properties of the server selection\<close>

lemma is_running_iff:
  "distinct (map fst ss) \<Longrightarrow>
   is_running ss i \<longleftrightarrow> (\<exists>st. (i, st) \<in> set ss \<and> status st = Running)"
  by (auto simp: is_running_def split: option.splits dest: map_of_SomeD)
     (metis map_of_eq_Some_iff option.inject)+

lemma set_updatedActiveIds:
  "set (updatedActiveIds ss active) = {i \<in> set active. is_running ss i}"
  by (simp add: updatedActiveIds_def)

lemma set_newActiveIds:
  assumes "distinct (map fst ss)"
  shows "set (newActiveIds ss active) = {i. is_running ss i \<and> i \<notin> set active}"
proof -
  have "set (newActiveIds ss active)
      = {i. (\<exists>st. (i, st) \<in> set ss \<and> status st = Running)
            \<and> i \<notin> set (updatedActiveIds ss active)}"
    by (force simp: newActiveIds_def)
  also have "\<dots> = {i. is_running ss i \<and> i \<notin> set active}"
    by (auto simp: set_updatedActiveIds is_running_iff [OF assms])
  finally show ?thesis .
qed

lemma filter_keeps_length:
  "length (filter P xs) = length xs \<longleftrightarrow> (\<forall>x \<in> set xs. P x)"
proof
  assume len: "length (filter P xs) = length xs"
  show "\<forall>x \<in> set xs. P x"
  proof (rule ccontr)
    assume "\<not> (\<forall>x \<in> set xs. P x)"
    then obtain x where "x \<in> set xs" and "\<not> P x" by blast
    then have "length (filter P xs) < length xs" by (rule length_filter_less)
    with len show False by simp
  qed
next
  assume "\<forall>x \<in> set xs. P x"
  then have "filter P xs = xs" by (simp add: filter_id_conv)
  then show "length (filter P xs) = length xs" by simp
qed

lemma reconcile_None_iff:
  assumes "distinct (map fst ss)"
  shows "reconcile ss active = None \<longleftrightarrow> set active = {i. is_running ss i}"
proof -
  have "reconcile ss active = None \<longleftrightarrow>
        length (updatedActiveIds ss active) = length active \<and> newActiveIds ss active = []"
    by (simp add: reconcile_def)
  also have "\<dots> \<longleftrightarrow> (\<forall>i \<in> set active. is_running ss i) \<and> set (newActiveIds ss active) = {}"
    by (simp add: updatedActiveIds_def filter_keeps_length)
  also have "\<dots> \<longleftrightarrow> set active = {i. is_running ss i}"
    unfolding set_newActiveIds [OF assms] by blast
  finally show ?thesis .
qed

lemma set_reconciled:
  assumes "distinct (map fst ss)"
  shows "set (reconciled ss active) = {i. is_running ss i}"
proof (cases "reconcile ss active")
  case None
  with reconcile_None_iff [OF assms, of active] show ?thesis
    by (simp add: reconciled_def)
next
  case (Some ids)
  then have "ids = updatedActiveIds ss active @ newActiveIds ss active"
    by (simp add: reconcile_def split: if_splits)
  with Some show ?thesis
    by (auto simp: reconciled_def set_updatedActiveIds set_newActiveIds [OF assms])
qed

text \<open>
  Claim C4. Once the effect has run, the ids in \<^verbatim>\<open>activeServerIds\<close> are exactly the
  ids of the servers whose status is \<^verbatim>\<open>Running\<close>. When they already are, the effect
  does not call \<^verbatim>\<open>setActiveServerIds\<close>; in particular running it a second time
  changes nothing.
\<close>

theorem reconcile_active_is_running:
  assumes "distinct (map fst serverStates)"
  shows "set (reconciled serverStates activeServerIds)
           = {i. \<exists>st. (i, st) \<in> set serverStates \<and> status st = Running}
       \<and> (set activeServerIds = {i. \<exists>st. (i, st) \<in> set serverStates \<and> status st = Running}
            \<longrightarrow> reconcile serverStates activeServerIds = None)
       \<and> reconcile serverStates (reconciled serverStates activeServerIds) = None"
proof -
  have run: "{i. \<exists>st. (i, st) \<in> set serverStates \<and> status st = Running}
      = {i. is_running serverStates i}"
    by (simp add: is_running_iff [OF assms])
  show ?thesis
    unfolding run
    by (simp add: set_reconciled [OF assms] reconcile_None_iff [OF assms])
qed

theorem reconcile_active_is_running_witness:
  "distinct (map fst
     [(''a'', \<lparr>status = Running, server_tools = Some [''t1'']\<rparr>),
      (''b'', \<lparr>status = Failed, server_tools = None\<rparr>),
      (''c'', \<lparr>status = Running, server_tools = None\<rparr>)])
   \<and> reconcile
       [(''a'', \<lparr>status = Running, server_tools = Some [''t1'']\<rparr>),
        (''b'', \<lparr>status = Failed, server_tools = None\<rparr>),
        (''c'', \<lparr>status = Running, server_tools = None\<rparr>)] [''b'', ''a'']
     = Some [''a'', ''c'']
   \<and> reconcile
       [(''a'', \<lparr>status = Running, server_tools = Some [''t1'']\<rparr>),
        (''b'', \<lparr>status = Failed, server_tools = None\<rparr>),
        (''c'', \<lparr>status = Running, server_tools = None\<rparr>)] [''a'', ''c'']
     = None
   \<and> set [''a'', ''c'']
     = {i. \<exists>st. (i, st) \<in> set
         [(''a'', \<lparr>status = Running, server_tools = Some [''t1'']\<rparr>),
          (''b'', \<lparr>status = Failed, server_tools = None\<rparr>),
          (''c'', \<lparr>status = Running, server_tools = None\<rparr>)] \<and> status st = Running}"
  using reconcile_active_is_running
    [of "[(''a'', \<lparr>status = Running, server_tools = Some [''t1'']\<rparr>),
          (''b'', \<lparr>status = Failed, server_tools = None\<rparr>),
          (''c'', \<lparr>status = Running, server_tools = None\<rparr>)]" "[''b'', ''a'']"]
    reconcile_active_is_running
    [of "[(''a'', \<lparr>status = Running, server_tools = Some [''t1'']\<rparr>),
          (''b'', \<lparr>status = Failed, server_tools = None\<rparr>),
          (''c'', \<lparr>status = Running, server_tools = None\<rparr>)]" "[''a'', ''c'']"]
  by (simp add: reconcile_def reconciled_def updatedActiveIds_def newActiveIds_def
        is_running_def)

lemma foldl_count:
  "foldl (\<lambda>count (i, server).
            (if status server = Running
             then (case server_tools server of Some ts \<Rightarrow> count + length ts | None \<Rightarrow> count)
             else count)) a xs
     = a + sum_list (map (\<lambda>(i, server). if status server = Running then tools_length server else 0) xs)"
  by (induction xs arbitrary: a) (auto simp: tools_length_def split: option.splits)

lemma totalAvailableTools_sum_list:
  "totalAvailableTools ss active
     = sum_list (map (\<lambda>(i, server).
                        if i \<in> set active \<and> status server = Running
                        then tools_length server else 0) ss)"
  unfolding totalAvailableTools_def foldl_count
  by (induction ss) auto

text \<open>
  Claim C7. \<^verbatim>\<open>totalAvailableTools\<close> is the sum of \<^verbatim>\<open>tools.length\<close> over the servers
  that are in \<^verbatim>\<open>activeServerIds\<close> and \<^verbatim>\<open>Running\<close>; every other server adds 0.
\<close>

theorem totalAvailableTools_is_sum:
  assumes "distinct (map fst serverStates)"
  shows "totalAvailableTools serverStates activeServerIds
           = (\<Sum>(i, server) \<in> {(i, server). (i, server) \<in> set serverStates
                                   \<and> i \<in> set activeServerIds \<and> status server = Running}.
                tools_length server)
       \<and> totalAvailableTools serverStates activeServerIds
           = sum_list (map (\<lambda>(i, server).
                              if i \<in> set activeServerIds \<and> status server = Running
                              then tools_length server else 0) serverStates)"
proof -
  let ?P = "\<lambda>(i, server). i \<in> set activeServerIds \<and> status server = Running"
  let ?f = "\<lambda>(i :: string, server). tools_length server"
  from assms have dist: "distinct serverStates"
    by (simp add: distinct_map)
  have "totalAvailableTools serverStates activeServerIds
      = sum_list (map (\<lambda>e. if ?P e then ?f e else 0) serverStates)"
    unfolding totalAvailableTools_sum_list
    by (rule arg_cong [where f = sum_list]) (auto split: prod.splits)
  also have "\<dots> = sum_list (map ?f (filter ?P serverStates))"
    by (simp add: sum_list_map_filter')
  also have "\<dots> = sum ?f (set (filter ?P serverStates))"
    using dist by (simp add: sum_list_distinct_conv_sum_set)
  also have "set (filter ?P serverStates)
      = {(i, server). (i, server) \<in> set serverStates
            \<and> i \<in> set activeServerIds \<and> status server = Running}"
    by auto
  finally show ?thesis
    by (simp add: totalAvailableTools_sum_list)
qed

theorem totalAvailableTools_is_sum_witness:
  "distinct (map fst
     [(''a'', \<lparr>status = Running, server_tools = Some [''t1'', ''t2'']\<rparr>),
      (''b'', \<lparr>status = Starting, server_tools = Some [''t3'']\<rparr>),
      (''c'', \<lparr>status = Running, server_tools = Some [''t4'', ''t5'', ''t6'']\<rparr>),
      (''d'', \<lparr>status = Running, server_tools = None\<rparr>)])
   \<and> totalAvailableTools
       [(''a'', \<lparr>status = Running, server_tools = Some [''t1'', ''t2'']\<rparr>),
        (''b'', \<lparr>status = Starting, server_tools = Some [''t3'']\<rparr>),
        (''c'', \<lparr>status = Running, server_tools = Some [''t4'', ''t5'', ''t6'']\<rparr>),
        (''d'', \<lparr>status = Running, server_tools = None\<rparr>)] [''a'', ''b'', ''d'']
     = 2"
  using totalAvailableTools_is_sum
    [of "[(''a'', \<lparr>status = Running, server_tools = Some [''t1'', ''t2'']\<rparr>),
          (''b'', \<lparr>status = Starting, server_tools = Some [''t3'']\<rparr>),
          (''c'', \<lparr>status = Running, server_tools = Some [''t4'', ''t5'', ''t6'']\<rparr>),
          (''d'', \<lparr>status = Running, server_tools = None\<rparr>)]" "[''a'', ''b'', ''d'']"]
  by (simp add: tools_length_def)

end
